theory Spec2Isabelle
  imports Main "HOL-Library.Word"
begin

section \<open>Data of \<open>refresh.go\<close>\<close>

text \<open>
  \<open>time.Duration\<close> is an \<open>int64\<close> count of nanoseconds; subtraction wraps around.
\<close>

type_synonym duration = "64 word"

definition Millisecond :: duration where
  "Millisecond = 1000000"

text \<open>\<open>lifeSpanSafetyMargin = 10 * time.Millisecond\<close> (line 189).\<close>

definition lifeSpanSafetyMargin :: duration where
  "lifeSpanSafetyMargin = 10 * Millisecond"

text \<open>\<open>tokenLifeSpan = 100 * time.Millisecond\<close> (line 279).\<close>

definition tokenLifeSpan :: duration where
  "tokenLifeSpan = 100 * Millisecond"

text \<open>A non-nil Go \<open>error\<close>; \<open>nil\<close> is \<open>None\<close> of \<open>error option\<close>.\<close>

datatype error = Errorf string

text \<open>\<open>type tokenResponse struct { Token string; Err error }\<close> (lines 193-196).\<close>

record tokenResponse =
  Token :: string
  Err :: "error option"

text \<open>
  The authorization function has the Go type \<open>func() (string, time.Duration, error)\<close>.
  It takes no argument and may answer differently on every call, so the deterministic
  stand-in is the sequence of its answers: \<open>a k\<close> is what call number \<open>k\<close> (from 0)
  returns.
\<close>

type_synonym authorizer = "nat \<Rightarrow> string \<times> duration \<times> error option"

text \<open>
  The pair \<open>(value, error)\<close> that an answer of the authorization function leaves in
  the slot, and the lifespan it reports.
\<close>

definition slot_of :: "string \<times> duration \<times> error option \<Rightarrow> string \<times> error option" where
  "slot_of a = (case a of (tok, expiration, e) \<Rightarrow> (tok, e))"

definition validFor :: "string \<times> duration \<times> error option \<Rightarrow> duration" where
  "validFor a = (case a of (tok, expiration, e) \<Rightarrow> expiration)"

text \<open>
  \<open>time.After(d)\<close>, called when the clock shows \<open>t\<close>, returns a channel that can be
  received from once the clock has reached \<open>t + d\<close>; the model keeps that instant. With
  \<open>d \<le> 0\<close> the channel is ready at once.
\<close>

definition time_After :: "int \<Rightarrow> duration \<Rightarrow> int" where
  "time_After t d = t + sint d"

text \<open>
  The expiry the cell computes for an answer received at \<open>t\<close>: the argument of
  \<open>time.After\<close> in lines 216 and 234, counted from \<open>t\<close>.
\<close>

definition computed_expiry :: "string \<times> duration \<times> error option \<Rightarrow> int \<Rightarrow> int" where
  "computed_expiry a t = time_After t (validFor a - lifeSpanSafetyMargin)"

subsection \<open>The simulated endpoint \<open>authFunc\<close> (lines 289-330)\<close>

text \<open>
  \<open>authFunc\<close> draws eight random bytes, sleeps, and consults the random outage flag
  \<open>tempError\<close>. What the environment decides on one call is an \<open>outcome\<close>: the failure of
  \<open>rand.Read\<close> (line 294), an outage (line 325), or the eight bytes (line 328).
  Every return statement returns \<open>tokenLifeSpan\<close> as the lifespan.
\<close>

datatype outcome = RandFail error | Outage | Bytes "8 word list"

definition hexdigit :: "nat \<Rightarrow> char" where
  "hexdigit n = ''0123456789abcdef'' ! (n mod 16)"

text \<open>\<open>fmt.Sprintf("%x", b)\<close> on a byte slice: two lower-case hex digits per byte.\<close>

fun hex :: "8 word list \<Rightarrow> string" where
  "hex [] = []"
| "hex (b # bs) = hexdigit (unat b div 16) # hexdigit (unat b mod 16) # hex bs"

definition authFunc :: "(nat \<Rightarrow> outcome) \<Rightarrow> authorizer" where
  "authFunc env k =
     (case env k of
        RandFail e \<Rightarrow> ('''', tokenLifeSpan, Some e)
      | Outage \<Rightarrow> ('''', tokenLifeSpan, Some (Errorf ''temporary API error''))
      | Bytes b \<Rightarrow> (hex b, tokenLifeSpan, None))"

section \<open>The cells and their background loop\<close>

text \<open>
  Where the goroutine running \<open>refreshToken\<close> stands:
  \<^item> \<open>Spawned\<close>: started by the \<open>go\<close> statement of the constructor, no statement run yet;
  \<^item> \<open>InAuthorize\<close>: inside the call \<open>authorize()\<close> (line 213 or 227; 433 or 448);
  \<^item> \<open>InSelect\<close>: waiting in the \<open>select\<close> (line 219; 440);
  \<^item> \<open>Returned\<close>: left through \<open>case <-ctx.Done(): return\<close> (line 236; 462).
\<close>

datatype pc = Spawned | InAuthorize | InSelect | Returned

text \<open>
  One cell together with its surroundings.
  \<^item> \<open>authorize\<close>: the struct field of \<open>Token\<close> and of \<open>MToken\<close>.
  \<^item> \<open>token\<close>, \<open>err\<close>: the local variables \<open>token\<close>, \<open>err\<close> of \<open>Token.refreshToken\<close>,
    the fields \<open>token\<close>, \<open>tokenErr\<close> of \<open>MToken\<close>; both start as Go zero values.
  \<^item> \<open>expired\<close>: the instant from which the timer channel \<open>expired\<close> is ready.
  \<^item> \<open>mu\<close>: the write lock of \<open>MToken.mu\<close> is held (unused by \<open>Token\<close>).
  \<^item> \<open>now\<close>: the clock, in nanoseconds since construction.
  \<^item> \<open>ctx_done\<close>: the channel \<open>ctx.Done()\<close> is closed.
  \<^item> \<open>waiting\<close>: the callers that are inside \<open>Get()\<close> and have not returned.
  \<^item> \<open>reads\<close>: the log of completed \<open>Get()\<close> calls, latest first: caller, returned
    pair, clock at return.
  \<^item> \<open>calls\<close>, \<open>returned\<close>: how many calls of \<open>authorize\<close> have begun and have returned;
    \<open>fetched_at\<close>: the clock when the latest one returned. These three only record; no
    guard reads them, except that \<open>returned\<close> numbers the next answer of the authorizer.
\<close>

record world =
  authorize :: authorizer
  pc :: pc
  token :: string
  err :: "error option"
  expired :: int
  mu :: bool
  now :: int
  ctx_done :: bool
  waiting :: "nat set"
  reads :: "(nat \<times> (string \<times> error option) \<times> int) list"
  calls :: nat
  returned :: nat
  fetched_at :: int

text \<open>
  \<open>NewToken\<close> (lines 242-249) stores \<open>auth\<close> in the field, starts the goroutine and
  returns. The context is given by whether it is already cancelled.
\<close>

definition NewToken :: "bool \<Rightarrow> authorizer \<Rightarrow> world" where
  "NewToken ctx auth =
     \<lparr>authorize = auth, pc = Spawned, token = '''', err = None, expired = 0, mu = False,
      now = 0, ctx_done = ctx, waiting = {}, reads = [], calls = 0, returned = 0,
      fetched_at = 0\<rparr>"

text \<open>
  \<open>NewMToken\<close> (lines 410-418) has the same parameters, and stores the package-level
  function \<open>authFunc\<close> in the field: \<open>authorize: authFunc\<close> (line 413). The first
  argument is the environment of \<open>authFunc\<close>.
\<close>

definition NewMToken :: "(nat \<Rightarrow> outcome) \<Rightarrow> bool \<Rightarrow> authorizer \<Rightarrow> world" where
  "NewMToken env ctx auth =
     \<lparr>authorize = authFunc env, pc = Spawned, token = '''', err = None, expired = 0,
      mu = False, now = 0, ctx_done = ctx, waiting = {}, reads = [], calls = 0,
      returned = 0, fetched_at = 0\<rparr>"

text \<open>
  What can happen next. The clock moves only by \<open>Tick\<close>; everything the loop does
  between two points where it waits or calls out is one event.
\<close>

datatype event =
    Tick nat
  | Cancel
  | Get_call nat
  | Get_return nat
  | Authorize_call
  | Authorize_return
  | Select_expired
  | Select_done

text \<open>
  The assignment \<open>token, expiration, err = a.authorize()\<close> followed by
  \<open>time.After(expiration - lifeSpanSafetyMargin)\<close> (lines 213+216 and 227+234; in
  \<open>MToken\<close> lines 433+437 and 448+460).
\<close>

definition store_and_arm :: "world \<Rightarrow> world" where
  "store_and_arm w =
     (case authorize w (returned w) of
        (tok, expiration, e) \<Rightarrow>
          w\<lparr>token := tok, err := e,
            expired := time_After (now w) (expiration - lifeSpanSafetyMargin),
            returned := returned w + 1, fetched_at := now w, pc := InSelect\<rparr>)"

text \<open>
  \<open>Token\<close>, the channel version (lines 207-255).
  \<^item> \<open>Get_call r\<close>: caller \<open>r\<close> enters \<open>Get()\<close> and waits at \<open><-a.accessToken\<close> (line 253).
  \<^item> \<open>Authorize_call\<close>: the first statement of the goroutine, line 213.
  \<^item> \<open>Authorize_return\<close>: the call returns; lines 213-216 or 227-234.
  \<^item> \<open>Get_return r\<close>: the \<open>select\<close> takes its send case (line 221) with \<open>r\<close> as receiver,
    and \<open>r\<close> returns \<open>t.Token, t.Err\<close> (line 254). The channel is unbuffered, so a send
    needs a waiting receiver.
  \<^item> \<open>Select_expired\<close>: the \<open>select\<close> takes \<open>case <-expired\<close> (line 224) and calls
    \<open>authorize\<close> (line 227).
  \<^item> \<open>Select_done\<close>: the \<open>select\<close> takes \<open>case <-ctx.Done()\<close> and returns (line 236).
  A \<open>select\<close> with several ready cases takes any one of them. The value to send is built
  from \<open>token\<close> and \<open>err\<close> when the \<open>select\<close> is entered; neither changes while
  the loop waits there, so reading them at the send gives the same value.
\<close>

fun Token_step :: "event \<Rightarrow> world \<Rightarrow> world option" where
  "Token_step (Tick n) w = Some (w\<lparr>now := now w + int n\<rparr>)"
| "Token_step Cancel w = Some (w\<lparr>ctx_done := True\<rparr>)"
| "Token_step (Get_call r) w =
     (if r \<in> waiting w then None else Some (w\<lparr>waiting := insert r (waiting w)\<rparr>))"
| "Token_step Authorize_call w =
     (if pc w = Spawned then Some (w\<lparr>pc := InAuthorize, calls := calls w + 1\<rparr>) else None)"
| "Token_step Authorize_return w =
     (if pc w = InAuthorize then Some (store_and_arm w) else None)"
| "Token_step (Get_return r) w =
     (if pc w = InSelect \<and> r \<in> waiting w
      then (let t = \<lparr>Token = token w, Err = err w\<rparr>
            in Some (w\<lparr>waiting := waiting w - {r},
                       reads := (r, (Token t, Err t), now w) # reads w\<rparr>))
      else None)"
| "Token_step Select_expired w =
     (if pc w = InSelect \<and> expired w \<le> now w
      then Some (w\<lparr>pc := InAuthorize, calls := calls w + 1\<rparr>) else None)"
| "Token_step Select_done w =
     (if pc w = InSelect \<and> ctx_done w then Some (w\<lparr>pc := Returned\<rparr>) else None)"

text \<open>
  \<open>MToken\<close>, the mutex version (lines 401-465).
  \<^item> \<open>Authorize_call\<close>: \<open>m.mu.Lock()\<close> and the call of line 433.
  \<^item> \<open>Authorize_return\<close>: the assignment, \<open>m.mu.Unlock()\<close> and \<open>time.After\<close>
    (lines 433-437 or 448-460).
  \<^item> \<open>Get_return r\<close>: the body of \<open>Get()\<close> (lines 422-424): \<open>RLock\<close>, read both fields,
    \<open>RUnlock\<close>. \<open>RLock\<close> waits while the write lock is held; the read lock covers only
    the two reads, so the body is one event.
  \<^item> \<open>Select_expired\<close>: \<open>case <-expired\<close> (line 442), \<open>m.mu.Lock()\<close> (line 446) and the
    call of line 448.
  \<^item> \<open>Select_done\<close>: line 461-462.
\<close>

fun MToken_step :: "event \<Rightarrow> world \<Rightarrow> world option" where
  "MToken_step (Tick n) w = Some (w\<lparr>now := now w + int n\<rparr>)"
| "MToken_step Cancel w = Some (w\<lparr>ctx_done := True\<rparr>)"
| "MToken_step (Get_call r) w =
     (if r \<in> waiting w then None else Some (w\<lparr>waiting := insert r (waiting w)\<rparr>))"
| "MToken_step Authorize_call w =
     (if pc w = Spawned \<and> \<not> mu w
      then Some (w\<lparr>mu := True, pc := InAuthorize, calls := calls w + 1\<rparr>) else None)"
| "MToken_step Authorize_return w =
     (if pc w = InAuthorize then Some ((store_and_arm w)\<lparr>mu := False\<rparr>) else None)"
| "MToken_step (Get_return r) w =
     (if \<not> mu w \<and> r \<in> waiting w
      then Some (w\<lparr>waiting := waiting w - {r},
                   reads := (r, (token w, err w), now w) # reads w\<rparr>)
      else None)"
| "MToken_step Select_expired w =
     (if pc w = InSelect \<and> expired w \<le> now w \<and> \<not> mu w
      then Some (w\<lparr>mu := True, pc := InAuthorize, calls := calls w + 1\<rparr>) else None)"
| "MToken_step Select_done w =
     (if pc w = InSelect \<and> ctx_done w then Some (w\<lparr>pc := Returned\<rparr>) else None)"

text \<open>An execution: the events in order; \<open>None\<close> when one of them cannot happen.\<close>

fun run :: "(event \<Rightarrow> world \<Rightarrow> world option) \<Rightarrow> event list \<Rightarrow> world \<Rightarrow> world option" where
  "run step [] w = Some w"
| "run step (e # es) w = (case step e w of None \<Rightarrow> None | Some w' \<Rightarrow> run step es w')"

text \<open>The number of calls of \<open>authorize\<close> that have begun and not returned.\<close>

definition in_flight :: "world \<Rightarrow> nat" where
  "in_flight w = calls w - returned w"

text \<open>
  A deterministic authorizer for concrete executions: the token \<open>tok-A\<close>, then
  \<open>tok-B\<close> for ever, each valid for 100 ms.
\<close>

definition tokAB :: authorizer where
  "tokAB k = (if k = 0 then (''tok-A'', 100 * Millisecond, None)
              else (''tok-B'', 100 * Millisecond, None))"

text \<open>One that fails once, with a lifespan of 5 ms, shorter than the safety margin.\<close>

definition flaky :: authorizer where
  "flaky k = (if k = 0 then ('''', 5 * Millisecond, Some (Errorf ''denied''))
              else (''tok-B'', 5 * Millisecond, None))"

text \<open>An environment of \<open>authFunc\<close> without outage: call \<open>k\<close> draws these bytes.\<close>

definition steady :: "nat \<Rightarrow> outcome" where
  "steady k = Bytes [0xde, 0xad, 0xbe, 0xef, 0, 1, 2, of_nat k]"

text \<open>A supplied authorizer that is told apart from \<open>authFunc\<close> by its token.\<close>

definition supplied :: authorizer where
  "supplied k = (''supplied'', 50 * Millisecond, None)"

subsection \<open>Invariants of the executions\<close>

text \<open>Calls of \<open>authorize\<close> are counted one at a time, and only the loop is inside one.\<close>

definition flight_inv :: "world \<Rightarrow> bool" where
  "flight_inv w =
     (returned w \<le> calls w \<and> calls w \<le> returned w + 1 \<and>
      (pc w = InAuthorize) = (calls w = returned w + 1))"

text \<open>
  Once a call has returned, the slot holds the latest answer and the timer is the one
  armed for it.
\<close>

definition slot_inv :: "authorizer \<Rightarrow> world \<Rightarrow> bool" where
  "slot_inv auth w =
     (authorize w = auth \<and>
      (pc w = Spawned \<longrightarrow> returned w = 0) \<and>
      (pc w = InSelect \<or> pc w = Returned \<longrightarrow> 0 < returned w) \<and>
      (0 < returned w \<longrightarrow>
         (token w, err w) = slot_of (auth (returned w - 1)) \<and>
         expired w = computed_expiry (auth (returned w - 1)) (fetched_at w) \<and>
         fetched_at w \<le> now w))"

text \<open>Every pair a \<open>Get()\<close> has returned is the slot of some answer received so far.\<close>

definition reads_inv :: "authorizer \<Rightarrow> world \<Rightarrow> bool" where
  "reads_inv auth w =
     (\<forall>x \<in> set (reads w). \<exists>j < returned w. fst (snd x) = slot_of (auth j))"

section \<open>General facts about executions\<close>

lemmas concrete =
  NewToken_def NewMToken_def store_and_arm_def tokAB_def flaky_def steady_def supplied_def
  time_After_def computed_expiry_def validFor_def slot_of_def lifeSpanSafetyMargin_def
  Millisecond_def tokenLifeSpan_def authFunc_def in_flight_def hexdigit_def

text \<open>A property kept by every event of an execution holds at its end.\<close>

lemma run_invariant:
  assumes "\<And>e w w'. e \<in> set es \<Longrightarrow> P w \<Longrightarrow> step e w = Some w' \<Longrightarrow> P w'"
    and "P w" and "run step es w = Some w'"
  shows "P w'"
  using assms
proof (induction es arbitrary: w)
  case Nil
  then show ?case by simp
next
  case (Cons e es)
  from Cons.prems(3) obtain v where v: "step e w = Some v" and r: "run step es v = Some w'"
    by (auto split: option.splits)
  have "P v" using Cons.prems(1) [of e w v] Cons.prems(2) v by simp
  moreover have "\<And>e' x x'. e' \<in> set es \<Longrightarrow> P x \<Longrightarrow> step e' x = Some x' \<Longrightarrow> P x'"
    using Cons.prems(1) by (meson list.set_intros(2))
  ultimately show ?case using Cons.IH r by blast
qed

subsection \<open>The invariants are kept\<close>

lemma flight_inv_Token: "flight_inv w \<Longrightarrow> Token_step e w = Some w' \<Longrightarrow> flight_inv w'"
  unfolding flight_inv_def
  by (cases e) (auto simp: store_and_arm_def Let_def split: if_splits prod.splits)

lemma flight_inv_MToken: "flight_inv w \<Longrightarrow> MToken_step e w = Some w' \<Longrightarrow> flight_inv w'"
  unfolding flight_inv_def
  by (cases e) (auto simp: store_and_arm_def split: if_splits prod.splits)

lemma slot_inv_Token: "slot_inv auth w \<Longrightarrow> Token_step e w = Some w' \<Longrightarrow> slot_inv auth w'"
  unfolding slot_inv_def
  by (cases e) (auto simp: store_and_arm_def Let_def slot_of_def computed_expiry_def validFor_def split: if_splits prod.splits)

lemma slot_inv_MToken: "slot_inv auth w \<Longrightarrow> MToken_step e w = Some w' \<Longrightarrow> slot_inv auth w'"
  unfolding slot_inv_def
  by (cases e) (auto simp: store_and_arm_def Let_def slot_of_def computed_expiry_def validFor_def split: if_splits prod.splits)

lemma reads_inv_Token:
  assumes "slot_inv auth w" "reads_inv auth w" "Token_step e w = Some w'"
  shows "reads_inv auth w'"
proof (cases e)
  case Authorize_return
  with assms(3) have "reads w' = reads w" "returned w' = Suc (returned w)"
    by (auto simp: store_and_arm_def split: if_splits prod.splits)
  with assms(2) show ?thesis
    unfolding reads_inv_def using less_Suc_eq by metis
next
  case (Get_return r)
  with assms(3) have s: "pc w = InSelect" and r: "reads w' = (r, (token w, err w), now w) # reads w"
    and n: "returned w' = returned w"
    by (auto simp: Let_def split: if_splits)
  from s assms(1) have "0 < returned w" "(token w, err w) = slot_of (auth (returned w - 1))"
    by (auto simp: slot_inv_def)
  then have "\<exists>j < returned w. (token w, err w) = slot_of (auth j)"
    by (metis diff_less zero_less_one)
  with assms(2) r n show ?thesis
    by (simp add: reads_inv_def)
qed (use assms(2,3) in \<open>(fastforce simp: reads_inv_def split: if_splits)+\<close>)

lemma Token_reachable:
  assumes "run Token_step es (NewToken ctx auth) = Some w"
  shows "flight_inv w" and "slot_inv auth w" and "reads_inv auth w"
proof -
  have f: "flight_inv (NewToken ctx auth)"
    by (simp add: flight_inv_def NewToken_def)
  show "flight_inv w"
    using run_invariant [where P = flight_inv and step = Token_step, OF _ f assms]
      flight_inv_Token by blast
  have s: "slot_inv auth (NewToken ctx auth) \<and> reads_inv auth (NewToken ctx auth)"
    by (simp add: slot_inv_def reads_inv_def NewToken_def)
  have "slot_inv auth w \<and> reads_inv auth w"
    using run_invariant [where P = "\<lambda>x. slot_inv auth x \<and> reads_inv auth x"
        and step = Token_step, OF _ s assms]
      slot_inv_Token reads_inv_Token by blast
  then show "slot_inv auth w" and "reads_inv auth w" by simp_all
qed

lemma MToken_reachable:
  assumes "run MToken_step es (NewMToken env ctx auth) = Some w"
  shows "flight_inv w" and "slot_inv (authFunc env) w"
proof -
  have f: "flight_inv (NewMToken env ctx auth)"
    by (simp add: flight_inv_def NewMToken_def)
  show "flight_inv w"
    using run_invariant [where P = flight_inv and step = MToken_step, OF _ f assms]
      flight_inv_MToken by blast
  have s: "slot_inv (authFunc env) (NewMToken env ctx auth)"
    by (simp add: slot_inv_def NewMToken_def)
  show "slot_inv (authFunc env) w"
    using run_invariant [where P = "slot_inv (authFunc env)"
        and step = MToken_step, OF _ s assms]
      slot_inv_MToken by blast
qed

subsection \<open>Facts about stretches of an execution\<close>

lemma slot_inv_run_Token:
  "slot_inv auth w \<Longrightarrow> run Token_step es w = Some w' \<Longrightarrow> slot_inv auth w'"
  using run_invariant [where P = "slot_inv auth" and step = Token_step] slot_inv_Token
  by blast

lemma slot_inv_run_MToken:
  "slot_inv auth w \<Longrightarrow> run MToken_step es w = Some w' \<Longrightarrow> slot_inv auth w'"
  using run_invariant [where P = "slot_inv auth" and step = MToken_step] slot_inv_MToken
  by blast

text \<open>What no event other than the return of \<open>authorize\<close> changes.\<close>

lemma step_keeps_slot:
  assumes "step = Token_step \<or> step = MToken_step" "e \<noteq> Authorize_return"
    "step e w = Some w'"
  shows "token w' = token w \<and> err w' = err w \<and> expired w' = expired w \<and>
    returned w' = returned w \<and> fetched_at w' = fetched_at w"
  using assms by (cases e) (auto simp: Let_def split: if_splits)

lemma run_keeps_slot:
  assumes "step = Token_step \<or> step = MToken_step" "Authorize_return \<notin> set es"
    "run step es w = Some w'"
  shows "token w' = token w \<and> err w' = err w \<and> expired w' = expired w \<and>
    returned w' = returned w \<and> fetched_at w' = fetched_at w"
proof (rule run_invariant [where step = step and es = es and w = w and
      P = "\<lambda>x. token x = token w \<and> err x = err w \<and> expired x = expired w \<and>
        returned x = returned w \<and> fetched_at x = fetched_at w"])
  fix e x x'
  assume "e \<in> set es" and p: "token x = token w \<and> err x = err w \<and> expired x = expired w \<and>
        returned x = returned w \<and> fetched_at x = fetched_at w" and s: "step e x = Some x'"
  with assms(2) have "e \<noteq> Authorize_return" by auto
  from step_keeps_slot [OF assms(1) this s] p
  show "token x' = token w \<and> err x' = err w \<and> expired x' = expired w \<and>
        returned x' = returned w \<and> fetched_at x' = fetched_at w" by simp
qed (use assms(3) in simp_all)

text \<open>What only grows.\<close>

lemma step_mono:
  assumes "step = Token_step \<or> step = MToken_step" "step e w = Some w'"
  shows "returned w \<le> returned w' \<and> calls w \<le> calls w' \<and> now w \<le> now w' \<and>
    authorize w' = authorize w \<and> (ctx_done w \<longrightarrow> ctx_done w')"
  using assms by (cases e) (auto simp: Let_def store_and_arm_def split: if_splits prod.splits)

lemma run_mono:
  assumes "step = Token_step \<or> step = MToken_step" "run step es w = Some w'"
  shows "returned w \<le> returned w' \<and> calls w \<le> calls w' \<and> now w \<le> now w' \<and>
    authorize w' = authorize w \<and> (ctx_done w \<longrightarrow> ctx_done w')"
proof (rule run_invariant [where step = step and es = es and w = w and
      P = "\<lambda>x. returned w \<le> returned x \<and> calls w \<le> calls x \<and> now w \<le> now x \<and>
    authorize x = authorize w \<and> (ctx_done w \<longrightarrow> ctx_done x)"])
  fix e x x'
  assume p: "returned w \<le> returned x \<and> calls w \<le> calls x \<and> now w \<le> now x \<and>
    authorize x = authorize w \<and> (ctx_done w \<longrightarrow> ctx_done x)" and s: "step e x = Some x'"
  from step_mono [OF assms(1) s] p
  show "returned w \<le> returned x' \<and> calls w \<le> calls x' \<and> now w \<le> now x' \<and>
    authorize x' = authorize w \<and> (ctx_done w \<longrightarrow> ctx_done x')" by auto
qed (use assms(2) in simp_all)




text \<open>After the loop has returned.\<close>

lemma step_after_return:
  assumes "step = Token_step \<or> step = MToken_step" "step e w = Some w'" "pc w = Returned"
  shows "pc w' = Returned \<and> calls w' = calls w \<and> returned w' = returned w \<and>
     token w' = token w \<and> err w' = err w \<and>
     (step = Token_step \<longrightarrow> reads w' = reads w \<and> waiting w \<subseteq> waiting w')"
  using assms by (cases e) (auto simp: Let_def split: if_splits)

lemma run_after_return:
  assumes "step = Token_step \<or> step = MToken_step" "run step es w = Some w'" "pc w = Returned"
  shows "pc w' = Returned \<and> calls w' = calls w \<and> returned w' = returned w \<and>
     token w' = token w \<and> err w' = err w \<and>
     (step = Token_step \<longrightarrow> reads w' = reads w \<and> waiting w \<subseteq> waiting w')"
proof -
  let ?P = "\<lambda>x. pc x = Returned \<and> calls x = calls w \<and> returned x = returned w \<and>
     token x = token w \<and> err x = err w \<and>
     (step = Token_step \<longrightarrow> reads x = reads w \<and> waiting w \<subseteq> waiting x)"
  have "?P w'"
  proof (rule run_invariant [where step = step and es = es and w = w and P = ?P])
    fix e x x'
    assume p: "?P x" and s: "step e x = Some x'"
    from step_after_return [OF assms(1) s] p show "?P x'" by auto
  qed (use assms in simp_all)
  then show ?thesis by simp
qed

text \<open>The loop returns only through the cancellation case of its \<open>select\<close>.\<close>

lemma step_not_returned:
  assumes "step = Token_step \<or> step = MToken_step" "e \<noteq> Select_done"
    "step e w = Some w'" "pc w \<noteq> Returned"
  shows "pc w' \<noteq> Returned"
  using assms by (cases e) (auto simp: Let_def store_and_arm_def split: if_splits prod.splits)

lemma run_not_returned:
  assumes "step = Token_step \<or> step = MToken_step" "Select_done \<notin> set es"
    "run step es w = Some w'" "pc w \<noteq> Returned"
  shows "pc w' \<noteq> Returned"
proof (rule run_invariant [where step = step and es = es and w = w and
      P = "\<lambda>x. pc x \<noteq> Returned"])
  fix e x x'
  assume "e \<in> set es" and p: "pc x \<noteq> Returned" and s: "step e x = Some x'"
  with assms(2) have "e \<noteq> Select_done" by auto
  from step_not_returned [OF assms(1) this s p] show "pc x' \<noteq> Returned" .
qed (use assms in simp_all)

lemma step_returned_done:
  assumes "step = Token_step \<or> step = MToken_step" "step e w = Some w'"
    "pc w = Returned \<longrightarrow> ctx_done w"
  shows "pc w' = Returned \<longrightarrow> ctx_done w'"
  using assms by (cases e) (auto simp: Let_def store_and_arm_def split: if_splits prod.splits)

lemma run_returned_done:
  assumes "step = Token_step \<or> step = MToken_step" "run step es w = Some w'"
    "pc w = Returned \<longrightarrow> ctx_done w"
  shows "pc w' = Returned \<longrightarrow> ctx_done w'"
proof (rule run_invariant [where step = step and es = es and w = w and
      P = "\<lambda>x. pc x = Returned \<longrightarrow> ctx_done x"])
  fix e x x'
  assume p: "pc x = Returned \<longrightarrow> ctx_done x" and s: "step e x = Some x'"
  from step_returned_done [OF assms(1) s p] show "pc x' = Returned \<longrightarrow> ctx_done x'" .
qed (use assms in simp_all)



text \<open>Subtracting the safety margin does not wrap unless the lifespan is near the least \<open>int64\<close>.\<close>

lemma sint_minus_margin:
  assumes "- (2 ^ 63) + 10000000 \<le> sint (v :: duration)"
  shows "sint (v - lifeSpanSafetyMargin) = sint v - 10000000"
proof -
  have m: "sint lifeSpanSafetyMargin = 10000000"
    by (simp add: lifeSpanSafetyMargin_def Millisecond_def)
  have u: "sint v < 2 ^ 63"
    using sint_lt [of v] by simp
  have "sint (v - lifeSpanSafetyMargin) = signed_take_bit 63 (sint v - 10000000)"
    using m by (simp add: sint_word_ariths)
  also have "\<dots> = sint v - 10000000"
    using assms u by (intro signed_take_bit_int_eq_self) simp_all
  finally show ?thesis .
qed

section \<open>The claims\<close>

text \<open>
  C2 (single-flight). In every execution of either cell, whatever the callers of
  \<open>Get()\<close> do, the calls of the authorization function that have begun and not yet
  returned number at most one.
\<close>

theorem single_flight:
  "(run Token_step es (NewToken ctx auth) = Some w \<longrightarrow>
      returned w \<le> calls w \<and> in_flight w \<le> 1) \<and>
   (run MToken_step es (NewMToken env ctx auth) = Some w \<longrightarrow>
      returned w \<le> calls w \<and> in_flight w \<le> 1)"
  using Token_reachable(1) [of es ctx auth w] MToken_reachable(1) [of es env ctx auth w]
  by (auto simp: flight_inv_def in_flight_def)

theorem single_flight_witness:
  "(\<exists>w. run Token_step [Authorize_call, Authorize_return, Get_call 0, Get_call 1, Get_return 1,
          Tick 90000000, Select_expired, Get_call 2] (NewToken False tokAB) = Some w
        \<and> in_flight w = 1 \<and> returned w \<le> calls w) \<and>
   (\<exists>w. run MToken_step [Get_call 0, Authorize_call, Get_call 1, Authorize_return, Get_return 1,
          Tick 90000000, Select_expired, Get_call 2] (NewMToken steady False tokAB) = Some w
        \<and> in_flight w = 1 \<and> returned w \<le> calls w)"
proof -
  obtain w where h: "run Token_step [Authorize_call, Authorize_return, Get_call 0, Get_call 1,
      Get_return 1, Tick 90000000, Select_expired, Get_call 2] (NewToken False tokAB) = Some w"
    and f: "in_flight w = 1"
    by (simp add: concrete)
  obtain m where k: "run MToken_step [Get_call 0, Authorize_call, Get_call 1, Authorize_return,
      Get_return 1, Tick 90000000, Select_expired, Get_call 2] (NewMToken steady False tokAB) = Some m"
    and g: "in_flight m = 1"
    by (simp add: concrete)
  from single_flight [where w = w and ctx = False and auth = tokAB]
    single_flight [where w = m and env = steady and ctx = False and auth = tokAB] h f k g
  show ?thesis by blast
qed

text \<open>
  C6 (shutdown). For either cell: the loop takes the cancellation case only when the
  context is cancelled, and then it has returned; once it has returned, no event starts a
  call of the authorization function and the count of calls stays what it was in every
  continuation; and an execution in which the loop returns contains the cancellation
  case, with the context cancelled. A return of \<open>authorize\<close> (with or without an error)
  and the timer case never end the loop.
\<close>

theorem shutdown:
  assumes "step = Token_step \<or> step = MToken_step"
  shows "(step Select_done w = Some w' \<longrightarrow> ctx_done w \<and> pc w' = Returned) \<and>
    (pc w = Returned \<and> run step es w = Some w' \<longrightarrow>
       pc w' = Returned \<and> calls w' = calls w \<and> returned w' = returned w) \<and>
    (pc w = Returned \<longrightarrow> step Authorize_call w = None \<and> step Select_expired w = None) \<and>
    (pc w \<noteq> Returned \<and> run step es w = Some w' \<and> pc w' = Returned \<longrightarrow>
       Select_done \<in> set es \<and> ctx_done w')"
proof (intro conjI impI)
  assume "step Select_done w = Some w'"
  with assms show "ctx_done w" and "pc w' = Returned"
    by (auto split: if_splits)
next
  assume a: "pc w = Returned \<and> run step es w = Some w'"
  with run_after_return [OF assms, of es w w']
  show "pc w' = Returned" and "calls w' = calls w" and "returned w' = returned w"
    by simp_all
next
  assume "pc w = Returned"
  with assms show "step Authorize_call w = None" and "step Select_expired w = None"
    by auto
next
  assume a: "pc w \<noteq> Returned \<and> run step es w = Some w' \<and> pc w' = Returned"
  with run_not_returned [OF assms, of es w w'] show "Select_done \<in> set es"
    by blast
  from a run_returned_done [OF assms, of es w w'] show "ctx_done w'"
    by simp
qed

theorem shutdown_witness:
  "(\<exists>w w'. run Token_step [Authorize_call, Authorize_return, Cancel, Select_done]
        (NewToken False flaky) = Some w
      \<and> run Token_step [Tick 1000000000, Get_call 0, Cancel] w = Some w'
      \<and> Token_step Select_expired w = None
      \<and> pc w' = Returned \<and> calls w' = 1 \<and> ctx_done w) \<and>
   (\<exists>w w'. run MToken_step [Authorize_call, Authorize_return, Cancel, Select_done]
        (NewMToken steady False flaky) = Some w
      \<and> run MToken_step [Tick 1000000000, Get_call 0, Get_return 0] w = Some w'
      \<and> MToken_step Select_expired w = None
      \<and> pc w' = Returned \<and> calls w' = 1 \<and> ctx_done w)"
proof -
  define w where "w = \<lparr>authorize = flaky, pc = Returned, token = '''',
    err = Some (Errorf ''denied''), expired = - 5000000, mu = False, now = 0, ctx_done = True,
    waiting = {}, reads = [], calls = 1, returned = 1, fetched_at = 0\<rparr>"
  define w' where "w' = w\<lparr>now := 1000000000, waiting := {0}\<rparr>"
  have r: "run Token_step [Authorize_call, Authorize_return, Cancel, Select_done]
      (NewToken False flaky) = Some w"
    by (simp add: w_def concrete)
  have r': "run Token_step [Tick 1000000000, Get_call 0, Cancel] w = Some w'"
    by (simp add: w_def w'_def)
  have n: "pc (NewToken False flaky) \<noteq> Returned" "pc w = Returned" "calls w = 1"
    by (simp_all add: NewToken_def w_def)
  from shutdown [where step = Token_step and w = w and w' = w'
      and es = "[Tick 1000000000, Get_call 0, Cancel]"]
    shutdown [where step = Token_step and w = "NewToken False flaky" and w' = w
      and es = "[Authorize_call, Authorize_return, Cancel, Select_done]"] r r' n
  have a: "Token_step Select_expired w = None \<and> pc w' = Returned \<and> calls w' = 1 \<and> ctx_done w"
    by simp
  define m where "m = \<lparr>authorize = authFunc steady, pc = Returned,
    token = ''deadbeef00010200'', err = None, expired = 90000000, mu = False, now = 0,
    ctx_done = True, waiting = {}, reads = [], calls = 1, returned = 1, fetched_at = 0\<rparr>"
  define m' where "m' = m\<lparr>now := 1000000000,
    reads := [(0, (''deadbeef00010200'', None), 1000000000)]\<rparr>"
  have q: "run MToken_step [Authorize_call, Authorize_return, Cancel, Select_done]
      (NewMToken steady False flaky) = Some m"
    by (simp add: m_def concrete)
  have q': "run MToken_step [Tick 1000000000, Get_call 0, Get_return 0] m = Some m'"
    by (simp add: m_def m'_def)
  have k: "pc (NewMToken steady False flaky) \<noteq> Returned" "pc m = Returned" "calls m = 1"
    by (simp_all add: NewMToken_def m_def)
  from shutdown [where step = MToken_step and w = m and w' = m'
      and es = "[Tick 1000000000, Get_call 0, Get_return 0]"]
    shutdown [where step = MToken_step and w = "NewMToken steady False flaky" and w' = m
      and es = "[Authorize_call, Authorize_return, Cancel, Select_done]"] q q' k
  have b: "MToken_step Select_expired m = None \<and> pc m' = Returned \<and> calls m' = 1 \<and> ctx_done m"
    by simp
  from a b r r' q q' show ?thesis by blast
qed

text \<open>
  C10 (a \<open>Get()\<close> on a stopped \<open>Token\<close> never returns). Once the loop of the channel
  version has returned, no \<open>Get()\<close> completes in any continuation: the log of completed
  reads stays as it was, a caller that enters \<open>Get()\<close> then is still waiting at the end of
  every continuation, and its return is not possible there. No value other than an answer
  of the authorization function is ever handed to a reader, so no reader is told that the
  cell has stopped.
\<close>

theorem Get_on_stopped_Token_blocks:
  assumes "pc w = Returned"
  shows "(run Token_step es w = Some w' \<longrightarrow>
       pc w' = Returned \<and> reads w' = reads w \<and> Token_step (Get_return r) w' = None) \<and>
    (Token_step (Get_call r) w = Some w1 \<and> run Token_step es w1 = Some w2 \<longrightarrow>
       r \<in> waiting w2 \<and> reads w2 = reads w \<and> Token_step (Get_return r) w2 = None) \<and>
    (run Token_step es0 (NewToken ctx auth) = Some w \<longrightarrow>
       (\<forall>x \<in> set (reads w). \<exists>j < returned w. fst (snd x) = slot_of (auth j)))"
proof (intro conjI impI)
  assume a: "run Token_step es w = Some w'"
  from run_after_return [of Token_step es w w'] a assms
  show "pc w' = Returned" and "reads w' = reads w" and "Token_step (Get_return r) w' = None"
    by simp_all
next
  assume a: "Token_step (Get_call r) w = Some w1 \<and> run Token_step es w1 = Some w2"
  then have w1: "pc w1 = Returned" "reads w1 = reads w" "r \<in> waiting w1"
    using assms by (auto split: if_splits)
  from run_after_return [of Token_step es w1 w2] a w1
  show "r \<in> waiting w2" and "reads w2 = reads w" and "Token_step (Get_return r) w2 = None"
    by auto
next
  assume "run Token_step es0 (NewToken ctx auth) = Some w"
  from Token_reachable(3) [OF this]
  show "\<forall>x \<in> set (reads w). \<exists>j < returned w. fst (snd x) = slot_of (auth j)"
    by (simp add: reads_inv_def)
qed

theorem Get_on_stopped_Token_blocks_witness:
  "\<exists>w w2. run Token_step [Authorize_call, Authorize_return, Get_call 1, Get_return 1, Cancel,
        Select_done] (NewToken False flaky) = Some w
    \<and> run Token_step [Get_call 0, Tick 1000000000, Cancel] w = Some w2
    \<and> pc w = Returned \<and> 0 \<in> waiting w2 \<and> reads w2 = reads w
    \<and> Token_step (Get_return 0) w2 = None
    \<and> reads w = [(1, slot_of (flaky 0), 0)]"
proof -
  define w where "w = \<lparr>authorize = flaky, pc = Returned, token = '''',
    err = Some (Errorf ''denied''), expired = - 5000000, mu = False, now = 0, ctx_done = True,
    waiting = {}, reads = [(1, ('''', Some (Errorf ''denied'')), 0)], calls = 1, returned = 1,
    fetched_at = 0\<rparr>"
  define w1 where "w1 = w\<lparr>waiting := {0}\<rparr>"
  define w2 where "w2 = w\<lparr>now := 1000000000, waiting := {0}\<rparr>"
  have r: "run Token_step [Authorize_call, Authorize_return, Get_call 1, Get_return 1, Cancel,
        Select_done] (NewToken False flaky) = Some w"
    by (simp add: w_def concrete)
  have p: "pc w = Returned" and l: "reads w = [(1, slot_of (flaky 0), 0)]"
    by (simp_all add: w_def flaky_def slot_of_def)
  have c: "Token_step (Get_call 0) w = Some w1"
    by (simp add: w_def w1_def)
  have r1: "run Token_step [Tick 1000000000, Cancel] w1 = Some w2"
    by (simp add: w_def w1_def w2_def)
  have r2: "run Token_step [Get_call 0, Tick 1000000000, Cancel] w = Some w2"
    using c r1 by simp
  from Get_on_stopped_Token_blocks [OF p, where r = 0 and ?w1.0 = w1 and ?w2.0 = w2
      and es = "[Tick 1000000000, Cancel]"] c r1
  have "0 \<in> waiting w2 \<and> reads w2 = reads w \<and> Token_step (Get_return 0) w2 = None"
    by blast
  with r r2 p l show ?thesis by blast
qed




text \<open>
  C5 (an error of the authorization function, in \<open>Token\<close>). When \<open>authorize\<close> returns a
  token \<open>tok\<close>, a lifespan \<open>v\<close> and an error \<open>e\<close>, the loop stores \<open>tok\<close> and \<open>e\<close>, arms its
  timer with \<open>time.After(v - lifeSpanSafetyMargin)\<close> and waits in its \<open>select\<close>. In every
  continuation up to the next return of \<open>authorize\<close>: every \<open>Get()\<close> that returns, returns
  \<open>tok\<close> with the error \<open>e\<close>; the loop has returned only if the cancellation case was
  taken, with the context cancelled; and as soon as the clock has reached the timer, the
  loop can take the timer case and call \<open>authorize\<close> again.
\<close>

theorem authorize_error_stored_and_retried:
  assumes "pc w = InAuthorize" and "authorize w (returned w) = (tok, v, Some e)"
  shows "\<exists>w1. Token_step Authorize_return w = Some w1 \<and> pc w1 = InSelect \<and>
    token w1 = tok \<and> err w1 = Some e \<and>
    expired w1 = time_After (now w) (v - lifeSpanSafetyMargin) \<and>
    (\<forall>es w2. Authorize_return \<notin> set es \<and> run Token_step es w1 = Some w2 \<longrightarrow>
       (pc w2 = Returned \<longrightarrow> Select_done \<in> set es \<and> ctx_done w2) \<and>
       (\<forall>r w3. Token_step (Get_return r) w2 = Some w3 \<longrightarrow>
          reads w3 = (r, (tok, Some e), now w2) # reads w2) \<and>
       (pc w2 = InSelect \<and> expired w1 \<le> now w2 \<longrightarrow>
          (\<exists>w3. Token_step Select_expired w2 = Some w3 \<and> pc w3 = InAuthorize \<and>
             calls w3 = calls w2 + 1)))"
proof -
  define w1 where "w1 = store_and_arm w"
  have s: "Token_step Authorize_return w = Some w1"
    using assms(1) by (simp add: w1_def)
  have f: "pc w1 = InSelect" "token w1 = tok" "err w1 = Some e" "calls w1 = calls w"
    "expired w1 = time_After (now w) (v - lifeSpanSafetyMargin)"
    using assms(2) by (simp_all add: w1_def store_and_arm_def)
  have "(pc w2 = Returned \<longrightarrow> Select_done \<in> set es \<and> ctx_done w2) \<and>
       (\<forall>r w3. Token_step (Get_return r) w2 = Some w3 \<longrightarrow>
          reads w3 = (r, (tok, Some e), now w2) # reads w2) \<and>
       (pc w2 = InSelect \<and> expired w1 \<le> now w2 \<longrightarrow>
          (\<exists>w3. Token_step Select_expired w2 = Some w3 \<and> pc w3 = InAuthorize \<and>
             calls w3 = calls w2 + 1))"
    if n: "Authorize_return \<notin> set es" and r: "run Token_step es w1 = Some w2" for es w2
  proof (intro conjI impI allI)
    assume p: "pc w2 = Returned"
    from run_not_returned [of Token_step es w1 w2] r f(1) p show "Select_done \<in> set es"
      by auto
    from run_returned_done [of Token_step es w1 w2] r f(1) p show "ctx_done w2"
      by simp
  next
    fix r' w3
    assume g: "Token_step (Get_return r') w2 = Some w3"
    from run_keeps_slot [of Token_step es w1 w2] n r f
    have "token w2 = tok" "err w2 = Some e" by simp_all
    with g show "reads w3 = (r', (tok, Some e), now w2) # reads w2"
      by (auto simp: Let_def split: if_splits)
  next
    assume t: "pc w2 = InSelect \<and> expired w1 \<le> now w2"
    from run_keeps_slot [of Token_step es w1 w2] n r have "expired w2 = expired w1"
      by simp
    then show "\<exists>w3. Token_step Select_expired w2 = Some w3 \<and> pc w3 = InAuthorize \<and>
             calls w3 = calls w2 + 1"
      using t by simp
  qed
  with s f show ?thesis by blast
qed

theorem authorize_error_stored_and_retried_witness:
  "\<exists>w w1 w2 w3 w4. run Token_step [Authorize_call] (NewToken False flaky) = Some w
    \<and> Token_step Authorize_return w = Some w1
    \<and> err w1 = Some (Errorf ''denied'') \<and> pc w1 = InSelect \<and> expired w1 = - 5000000
    \<and> run Token_step [Get_call 0, Tick 3] w1 = Some w2
    \<and> Token_step (Get_return 0) w2 = Some w3
    \<and> reads w3 = [(0, ('''', Some (Errorf ''denied'')), 3)]
    \<and> Token_step Select_expired w2 = Some w4 \<and> calls w4 = 2"
proof -
  define w where "w = \<lparr>authorize = flaky, pc = InAuthorize, token = '''', err = None,
    expired = 0, mu = False, now = 0, ctx_done = False, waiting = {}, reads = [], calls = 1,
    returned = 0, fetched_at = 0\<rparr>"
  have r: "run Token_step [Authorize_call] (NewToken False flaky) = Some w"
    by (simp add: w_def concrete)
  have p: "pc w = InAuthorize"
    and a: "authorize w (returned w) = ('''', 5 * Millisecond, Some (Errorf ''denied''))"
    by (simp_all add: w_def flaky_def)
  from authorize_error_stored_and_retried [OF p a]
  obtain w1 where s: "Token_step Authorize_return w = Some w1"
    and f: "pc w1 = InSelect" "err w1 = Some (Errorf ''denied'')"
      "expired w1 = time_After (now w) (5 * Millisecond - lifeSpanSafetyMargin)"
    and q: "\<And>es w2. Authorize_return \<notin> set es \<Longrightarrow> run Token_step es w1 = Some w2 \<Longrightarrow>
       (\<forall>r w3. Token_step (Get_return r) w2 = Some w3 \<longrightarrow>
          reads w3 = (r, ('''', Some (Errorf ''denied'')), now w2) # reads w2) \<and>
       (pc w2 = InSelect \<and> expired w1 \<le> now w2 \<longrightarrow>
          (\<exists>w3. Token_step Select_expired w2 = Some w3 \<and> pc w3 = InAuthorize \<and>
             calls w3 = calls w2 + 1))"
    by blast
  have e: "expired w1 = - 5000000"
    using f(3) by (simp add: w_def concrete)
  define w2 where "w2 = (store_and_arm w)\<lparr>now := 3, waiting := {0}\<rparr>"
  have w1: "w1 = store_and_arm w"
    using s p by simp
  have r2: "run Token_step [Get_call 0, Tick 3] w1 = Some w2"
    by (simp add: w1 w2_def w_def concrete)
  have k: "pc w2 = InSelect" "now w2 = 3" "reads w2 = []" "calls w2 = 1" "0 \<in> waiting w2"
    by (simp_all add: w2_def w_def concrete)
  then obtain w3 where g: "Token_step (Get_return 0) w2 = Some w3"
    by simp
  have n: "Authorize_return \<notin> set [Get_call 0, Tick 3]"
    by simp
  from q [OF n r2] g have "reads w3 = (0, ('''', Some (Errorf ''denied'')), now w2) # reads w2"
    by blast
  then have l: "reads w3 = [(0, ('''', Some (Errorf ''denied'')), 3)]"
    using k(2,3) by simp
  have t: "pc w2 = InSelect \<and> expired w1 \<le> now w2"
    using k e by simp
  from q [OF n r2] t obtain w4 where x: "Token_step Select_expired w2 = Some w4"
    and "calls w4 = calls w2 + 1"
    by blast
  then have "calls w4 = 2"
    using k by simp
  with r s f(1,2) e r2 g l x show ?thesis by blast
qed

text \<open>
  C9 (a read that begins after a refresh sees it, in \<open>Token\<close>). In every execution: if
  call number \<open>k\<close> of \<open>authorize\<close> has returned and the slot is updated when a caller enters
  \<open>Get()\<close>, then what this \<open>Get()\<close> returns is the answer of the latest call that has
  returned by then, a call numbered \<open>k\<close> or later, and it is the answer of call \<open>k\<close> itself
  unless \<open>authorize\<close> has returned again in between.
\<close>

theorem Get_after_refresh_sees_it:
  assumes "run Token_step es0 (NewToken ctx auth) = Some w0" and "returned w0 = Suc k"
    and "Token_step (Get_call r) w0 = Some w1" and "run Token_step es w1 = Some w2"
    and "Token_step (Get_return r) w2 = Some w3"
  shows "k < returned w2 \<and>
    reads w3 = (r, slot_of (auth (returned w2 - 1)), now w2) # reads w2 \<and>
    (Authorize_return \<notin> set es \<longrightarrow> returned w2 = Suc k)"
proof -
  have "slot_inv auth w0"
    using assms(1) by (rule Token_reachable(2))
  then have "slot_inv auth w1"
    using assms(3) by (rule slot_inv_Token)
  then have i: "slot_inv auth w2"
    using assms(4) by (rule slot_inv_run_Token)
  have n: "returned w1 = Suc k"
    using assms(2,3) by (auto split: if_splits)
  from run_mono [of Token_step es w1 w2] assms(4) n have m: "k < returned w2"
    by simp
  from assms(5) have s: "pc w2 = InSelect"
    and l: "reads w3 = (r, (token w2, err w2), now w2) # reads w2"
    by (auto simp: Let_def split: if_splits)
  from i s have "(token w2, err w2) = slot_of (auth (returned w2 - 1))"
    by (simp add: slot_inv_def)
  with l have "reads w3 = (r, slot_of (auth (returned w2 - 1)), now w2) # reads w2"
    by simp
  moreover have "returned w2 = Suc k" if "Authorize_return \<notin> set es"
    using run_keeps_slot [of Token_step es w1 w2] that assms(4) n by simp
  ultimately show ?thesis using m by blast
qed

theorem Get_after_refresh_sees_it_witness:
  "\<exists>w0 w1 w2 w3. run Token_step [Authorize_call, Authorize_return, Tick 90000000,
        Select_expired, Authorize_return] (NewToken False tokAB) = Some w0
    \<and> returned w0 = Suc 1
    \<and> Token_step (Get_call 0) w0 = Some w1
    \<and> run Token_step [Tick 5] w1 = Some w2
    \<and> Token_step (Get_return 0) w2 = Some w3
    \<and> reads w3 = [(0, (''tok-B'', None), 90000005)]"
proof -
  define w0 where "w0 = \<lparr>authorize = tokAB, pc = InSelect, token = ''tok-B'', err = None,
    expired = 180000000, mu = False, now = 90000000, ctx_done = False, waiting = {},
    reads = [], calls = 2, returned = 2, fetched_at = 90000000\<rparr>"
  define w1 where "w1 = w0\<lparr>waiting := {0}\<rparr>"
  define w2 where "w2 = w1\<lparr>now := 90000005\<rparr>"
  define w3 where "w3 = w2\<lparr>waiting := {}, reads := [(0, (''tok-B'', None), 90000005)]\<rparr>"
  have a: "run Token_step [Authorize_call, Authorize_return, Tick 90000000,
        Select_expired, Authorize_return] (NewToken False tokAB) = Some w0"
    by (simp add: w0_def concrete)
  have b: "returned w0 = Suc 1"
    by (simp add: w0_def)
  have c: "Token_step (Get_call 0) w0 = Some w1"
    by (simp add: w0_def w1_def)
  have d: "run Token_step [Tick 5] w1 = Some w2"
    by (simp add: w0_def w1_def w2_def)
  have e: "Token_step (Get_return 0) w2 = Some w3"
    by (simp add: w0_def w1_def w2_def w3_def)
  from Get_after_refresh_sees_it [OF a b c d e]
  have "reads w3 = (0, slot_of (tokAB (returned w2 - 1)), now w2) # reads w2"
    by simp
  then have "reads w3 = [(0, (''tok-B'', None), 90000005)]"
    by (simp add: w0_def w1_def w2_def tokAB_def slot_of_def)
  with a b c d e show ?thesis by blast
qed

text \<open>
  C8 (clamping and a floor), as stated, fails: the code passes the difference to
  \<open>time.After\<close> as it is and keeps no floor between fetches. With lifespans of 5 ms the
  duration is \<open>-5 ms\<close>, the timer is ready at once, and three fetches complete at the same
  reading of the clock.
\<close>

theorem timer_unclamped_and_no_floor:
  "sint (validFor (flaky 0) - lifeSpanSafetyMargin) = - 5000000 \<and>
   run Token_step [Authorize_call, Authorize_return, Select_expired, Authorize_return,
      Select_expired, Authorize_return] (NewToken False flaky) =
     Some \<lparr>authorize = flaky, pc = InSelect, token = ''tok-B'', err = None,
       expired = - 5000000, mu = False, now = 0, ctx_done = False, waiting = {}, reads = [],
       calls = 3, returned = 3, fetched_at = 0\<rparr>"
  by (simp add: concrete)

text \<open>
  C8, amended. When a fetch completes with lifespan \<open>v\<close>, the timer is armed with the
  \<open>int64\<close> difference \<open>v - lifeSpanSafetyMargin\<close> (the margin is 10 ms), counted from the
  completion of the fetch, whatever its sign. For \<open>v\<close> above the margin that is exactly
  \<open>v - 10 ms\<close>. For \<open>v\<close> at or below the margin (and not so low that the subtraction
  wraps) the armed instant is \<open>v - 10 ms\<close> from completion, hence not in the future, and the
  loop can take the timer case and call \<open>authorize\<close> again with the clock unchanged: there is
  no clamp in the code and no floor.
\<close>

theorem timer_armed_with_difference:
  assumes "pc w = InAuthorize" and "authorize w (returned w) = (tok, v, e)"
  shows "\<exists>w1. Token_step Authorize_return w = Some w1 \<and> fetched_at w1 = now w \<and>
    now w1 = now w \<and>
    expired w1 = now w + sint (v - lifeSpanSafetyMargin) \<and>
    (10000000 < sint v \<longrightarrow> expired w1 = now w + (sint v - 10000000)) \<and>
    (- (2 ^ 63) + 10000000 \<le> sint v \<and> sint v \<le> 10000000 \<longrightarrow>
       expired w1 = now w + (sint v - 10000000) \<and>
       (\<exists>w2. Token_step Select_expired w1 = Some w2 \<and> pc w2 = InAuthorize \<and>
          calls w2 = calls w + 1 \<and> now w2 = now w))"
proof -
  define w1 where "w1 = store_and_arm w"
  have s: "Token_step Authorize_return w = Some w1"
    using assms(1) by (simp add: w1_def)
  have f: "pc w1 = InSelect" "fetched_at w1 = now w" "now w1 = now w" "calls w1 = calls w"
    "expired w1 = now w + sint (v - lifeSpanSafetyMargin)"
    using assms(2) by (simp_all add: w1_def store_and_arm_def time_After_def)
  have a: "expired w1 = now w + (sint v - 10000000)" if "10000000 < sint v"
    using that f(5) sint_minus_margin [of v] by simp
  have b: "expired w1 = now w + (sint v - 10000000) \<and>
       (\<exists>w2. Token_step Select_expired w1 = Some w2 \<and> pc w2 = InAuthorize \<and>
          calls w2 = calls w + 1 \<and> now w2 = now w)"
    if "- (2 ^ 63) + 10000000 \<le> sint v \<and> sint v \<le> 10000000"
  proof -
    from that f(5) sint_minus_margin [of v] have x: "expired w1 = now w + (sint v - 10000000)"
      by simp
    with that have "expired w1 \<le> now w1"
      using f(3) by simp
    with f x show ?thesis
      by simp
  qed
  from s f a b show ?thesis by blast
qed

theorem timer_armed_with_difference_witness:
  "(\<exists>w w1 w2. run Token_step [Authorize_call, Tick 8000000] (NewToken False flaky) = Some w
     \<and> Token_step Authorize_return w = Some w1
     \<and> expired w1 = 3000000 \<and> fetched_at w1 = 8000000
     \<and> Token_step Select_expired w1 = Some w2 \<and> calls w2 = 2 \<and> now w2 = 8000000) \<and>
   (\<exists>w w1. run Token_step [Authorize_call, Tick 8000000] (NewToken False tokAB) = Some w
     \<and> Token_step Authorize_return w = Some w1
     \<and> expired w1 = 98000000 \<and> fetched_at w1 = 8000000)"
proof -
  define w where "w = \<lparr>authorize = flaky, pc = InAuthorize, token = '''', err = None,
    expired = 0, mu = False, now = 8000000, ctx_done = False, waiting = {}, reads = [],
    calls = 1, returned = 0, fetched_at = 0\<rparr>"
  have r: "run Token_step [Authorize_call, Tick 8000000] (NewToken False flaky) = Some w"
    by (simp add: w_def concrete)
  have p: "pc w = InAuthorize"
    and a: "authorize w (returned w) = ('''', 5000000, Some (Errorf ''denied''))"
    and k: "now w = 8000000" "calls w = 1"
    by (simp_all add: w_def flaky_def Millisecond_def)
  have v: "- (2 ^ 63) + 10000000 \<le> sint (5000000 :: duration) \<and>
    sint (5000000 :: duration) \<le> 10000000"
    by simp
  from timer_armed_with_difference [OF p a] v
  obtain w1 w2 where "Token_step Authorize_return w = Some w1" "fetched_at w1 = now w"
    "expired w1 = now w + (sint (5000000 :: duration) - 10000000)"
    "Token_step Select_expired w1 = Some w2" "calls w2 = calls w + 1" "now w2 = now w"
    by blast
  with k r have A: "\<exists>w w1 w2.
      run Token_step [Authorize_call, Tick 8000000] (NewToken False flaky) = Some w
     \<and> Token_step Authorize_return w = Some w1
     \<and> expired w1 = 3000000 \<and> fetched_at w1 = 8000000
     \<and> Token_step Select_expired w1 = Some w2 \<and> calls w2 = 2 \<and> now w2 = 8000000"
    by (intro exI [of _ w] exI [of _ w1] exI [of _ w2]) simp
  define u where "u = w\<lparr>authorize := tokAB\<rparr>"
  have r': "run Token_step [Authorize_call, Tick 8000000] (NewToken False tokAB) = Some u"
    by (simp add: u_def w_def concrete)
  have p': "pc u = InAuthorize"
    and a': "authorize u (returned u) = (''tok-A'', 100000000, None)"
    and k': "now u = 8000000"
    by (simp_all add: u_def w_def tokAB_def Millisecond_def)
  have v': "10000000 < sint (100000000 :: duration)"
    by simp
  from timer_armed_with_difference [OF p' a'] v'
  obtain u1 where "Token_step Authorize_return u = Some u1" "fetched_at u1 = now u"
    "expired u1 = now u + (sint (100000000 :: duration) - 10000000)"
    by blast
  with k' r' have B: "\<exists>w w1.
      run Token_step [Authorize_call, Tick 8000000] (NewToken False tokAB) = Some w
     \<and> Token_step Authorize_return w = Some w1
     \<and> expired w1 = 98000000 \<and> fetched_at w1 = 8000000"
    by (intro exI [of _ u] exI [of _ u1]) simp
  from A B show ?thesis by (rule conjI)
qed




text \<open>
  C3 (first fetch before any read). The channel version keeps it: a \<open>Get()\<close> on a fresh
  \<open>Token\<close> cannot return before \<open>authorize\<close> has. The mutex version does not: a caller
  that runs \<open>Get()\<close> on a fresh \<open>MToken\<close> before the goroutine has taken the write lock
  finds the lock free and returns the zero values of the fields, the empty token and a nil
  error, with no call of the authorization function made.
\<close>

theorem MToken_Get_before_first_fetch:
  "run MToken_step [Get_call 0, Get_return 0] (NewMToken steady False supplied) =
     Some \<lparr>authorize = authFunc steady, pc = Spawned, token = '''', err = None, expired = 0,
       mu = False, now = 0, ctx_done = False, waiting = {}, reads = [(0, ('''', None), 0)],
       calls = 0, returned = 0, fetched_at = 0\<rparr> \<and>
   run Token_step [Get_call 0, Get_return 0] (NewToken False supplied) = None \<and>
   run Token_step [Get_call 0, Authorize_call, Get_return 0] (NewToken False supplied) = None"
  by (simp add: concrete)

text \<open>
  C7 (the supplied authorization function is the one called). \<open>NewToken\<close> stores its
  argument. \<open>NewMToken\<close> ignores its argument and stores \<open>authFunc\<close>: two cells made with
  different functions are the same cell, and the token a reader gets is the one of
  \<open>authFunc\<close> with its lifespan of 100 ms, not the one of the supplied function. Neither
  constructor calls the function.
\<close>

theorem NewMToken_ignores_auth:
  "authorize (NewToken False supplied) = supplied \<and>
   authorize (NewMToken steady False supplied) = authFunc steady \<and>
   NewMToken steady False supplied = NewMToken steady False tokAB \<and>
   supplied 0 = (''supplied'', 50000000, None) \<and>
   run MToken_step [Authorize_call, Authorize_return, Get_call 0, Get_return 0]
      (NewMToken steady False supplied) =
     Some \<lparr>authorize = authFunc steady, pc = InSelect, token = ''deadbeef00010200'',
       err = None, expired = 90000000, mu = False, now = 0, ctx_done = False, waiting = {},
       reads = [(0, (''deadbeef00010200'', None), 0)], calls = 1, returned = 1,
       fetched_at = 0\<rparr> \<and>
   run Token_step [Authorize_call, Authorize_return, Get_call 0, Get_return 0]
      (NewToken False supplied) =
     Some \<lparr>authorize = supplied, pc = InSelect, token = ''supplied'',
       err = None, expired = 40000000, mu = False, now = 0, ctx_done = False, waiting = {},
       reads = [(0, (''supplied'', None), 0)], calls = 1, returned = 1,
       fetched_at = 0\<rparr> \<and>
   calls (NewMToken steady False supplied) = 0 \<and> calls (NewToken False supplied) = 0"
  by (simp add: concrete)

end
